theory Spec2Isabelle
  imports Complex_Main "HOL-Library.Word"
begin

section \<open>Data model of the text layout engine\<close>

text \<open>
  The source is the class \<open>TextLayoutEngine\<close> of \<open>src/streamer.js\<close>.

  A JavaScript string is a sequence of UTF-16 code units; \<open>text[pos]\<close> reads one code
  unit and \<open>line.text + char\<close> appends it.

  JavaScript numbers are binary64 doubles. The model computes with exact numbers instead:
  widths, heights and coordinates are reals, font sizes (results of \<open>Math.floor\<close>) and
  \<open>maxWrap\<close> are integers. The only place where the source leaves the finite numbers is
  the division \<open>height / maxWrap\<close> at \<open>maxWrap = 0\<close>, which is written out below.

  The exact search is the search of the source where the doubles do not round: for an
  integer height \<open>H\<close> with \<open>0 \<le> H \<le> 2 ^ 52\<close> and \<open>maxWrap \<ge> 1\<close>. There \<open>minFontSize\<close>
  and \<open>maxFontSize\<close> are integers between 0 and \<open>H\<close>, so their sum (at most \<open>2 ^ 53\<close>),
  its half and their difference are computed exactly; the floor of the rounded quotient
  \<open>height / maxWrap\<close> is the floor of the quotient; and the product
  \<open>fontSize * numOfLines\<close> is exact up to \<open>2 ^ 53\<close> and greater than \<open>height\<close> before and
  after rounding beyond. For a greater height the sum \<open>minFontSize + maxFontSize\<close> rounds,
  the midpoint can fall back onto \<open>minFontSize\<close> in a window wider than 1, and the loop of
  the source then repeats the same state where the exact loop goes on: beyond \<open>2 ^ 52\<close> the
  model is not the code. The statements below on what the search returns, on its
  termination and on the order of the \<open>y\<close> coordinates therefore carry the bound
  \<open>2 ^ 52\<close> on the height. The coordinates and the stored widths differ from the doubles
  of the source by their rounding.

  The measurer \<open>#measure(fontSize, text).width\<close> belongs to the canvas and is a parameter
  of every function here.
\<close>

type_synonym jsstring = "16 word list"

type_synonym measurer = "int \<Rightarrow> jsstring \<Rightarrow> real"

text \<open>The object \<open>{ text, width }\<close> built by \<open>#wrapText\<close>.\<close>

record line =
  "text" :: jsstring
  width :: real

text \<open>The same object once \<open>calcLayout\<close> has stored \<open>x\<close> and \<open>y\<close> in it.\<close>

record placed_line = line +
  x :: real
  y :: real

text \<open>
  \<open>#getFontFor(fontSize)\<close> is the string \<open>`${fontSize}px sans-serif`\<close>; the descriptor is
  kept as its size.
\<close>

datatype font = Px_sans_serif int

record layout =
  font :: font
  lines :: "placed_line list"

datatype error = TypeError | RangeError

definition baselineRatio :: real where
  "baselineRatio = 88 / 100"

definition ellipsis :: jsstring where
  "ellipsis = [0x2026]"

definition getFontFor :: "int \<Rightarrow> font" where
  "getFontFor fontSize = Px_sans_serif fontSize"

section \<open>The wrapper\<close>

text \<open>
  The \<open>for\<close> loop of \<open>#wrapText\<close> over the remaining characters; the state is the array
  \<open>lines\<close> and the object \<open>line\<close>. \<open>lines.push({ ...line })\<close> stores a copy, so the
  later assignments to \<open>line\<close> do not reach it.
\<close>

fun wrapLoop :: "measurer \<Rightarrow> int \<Rightarrow> real \<Rightarrow> jsstring \<Rightarrow> line list \<times> line \<Rightarrow> line list \<times> line" where
  "wrapLoop m fontSize wd [] (ls, cur) = (ls, cur)"
| "wrapLoop m fontSize wd (c # cs) (ls, cur) =
     (let metrics = m fontSize (text cur @ [c])
      in if metrics > wd
         then wrapLoop m fontSize wd cs (ls @ [cur], \<lparr>text = [c], width = metrics - width cur\<rparr>)
         else wrapLoop m fontSize wd cs (ls, \<lparr>text = text cur @ [c], width = metrics\<rparr>))"

definition wrapText :: "measurer \<Rightarrow> jsstring \<Rightarrow> int \<Rightarrow> real \<Rightarrow> line list" where
  "wrapText m txt fontSize wd =
     (case wrapLoop m fontSize wd txt ([], \<lparr>text = [], width = 0\<rparr>) of
        (ls, cur) \<Rightarrow> if text cur \<noteq> [] then ls @ [cur] else ls)"

section \<open>The fitter\<close>

text \<open>
  \<open>Math.floor(height / maxWrap)\<close>. For \<open>maxWrap \<noteq> 0\<close> it is the floor of the quotient;
  at \<open>maxWrap = 0\<close> JavaScript divides by zero: the quotient is \<open>Infinity\<close>, \<open>-Infinity\<close>
  or \<open>NaN\<close> by the sign of \<open>height\<close>, and \<open>Math.floor\<close> returns it unchanged.
\<close>

datatype jsnum = NaN | NegInfinity | PosInfinity | Num int

definition floorDiv :: "real \<Rightarrow> int \<Rightarrow> jsnum" where
  "floorDiv ht maxWrap =
     (if maxWrap \<noteq> 0 then Num \<lfloor>ht / real_of_int maxWrap\<rfloor>
      else if ht > 0 then PosInfinity
      else if ht < 0 then NegInfinity
      else NaN)"

text \<open>
  The value of a call of \<open>#fitText\<close>: \<open>{ fontSize, lines }\<close> from the \<open>return\<close> inside the
  loop, or \<open>undefined\<close> when the \<open>while\<close> condition fails and the function body ends.
\<close>

datatype fit = Undefined | Fit int "line list"

text \<open>
  The \<open>while\<close> loop of \<open>#fitText\<close>. \<open>minFontSize\<close> is an integer from the first
  iteration on; \<open>maxFontSize\<close> starts as \<open>height\<close>, which need not be one. The loop has
  no bound of its own, so the model takes fuel: one unit for each evaluation of the loop
  condition, and \<open>None\<close> when the fuel is used up before the loop ends. The sum, the
  halving and the difference are exact here; they are those of the source for integer
  heights from 0 to \<open>2 ^ 52\<close>, as said at the beginning.
\<close>

fun fitLoop :: "nat \<Rightarrow> measurer \<Rightarrow> jsstring \<Rightarrow> real \<Rightarrow> real \<Rightarrow> int \<Rightarrow> int \<Rightarrow> real \<Rightarrow> fit option" where
  "fitLoop 0 m txt wd ht maxWrap minFontSize maxFontSize = None"
| "fitLoop (Suc fuel) m txt wd ht maxWrap minFontSize maxFontSize =
     (if real_of_int minFontSize \<le> maxFontSize then
        (let fontSize = \<lfloor>(real_of_int minFontSize + maxFontSize) / 2\<rfloor>;
             ls = wrapText m txt fontSize wd;
             numOfLines = int (length ls);
             hasOverflow = (numOfLines > maxWrap \<or> real_of_int (fontSize * numOfLines) > ht)
         in if maxFontSize - real_of_int minFontSize \<le> 1 then Some (Fit fontSize ls)
            else if hasOverflow
            then fitLoop fuel m txt wd ht maxWrap minFontSize (real_of_int (fontSize - 1))
            else fitLoop fuel m txt wd ht maxWrap fontSize maxFontSize)
      else Some Undefined)"

text \<open>
  \<open>#fitText\<close>. With \<open>minFontSize = Infinity\<close> or \<open>NaN\<close> the first test
  \<open>minFontSize <= maxFontSize\<close> is false and the result is \<open>undefined\<close>. With
  \<open>minFontSize = -Infinity\<close> (\<open>maxWrap = 0\<close>, \<open>height < 0\<close>) the loop never ends:
  \<open>fontSize\<close> is \<open>-Infinity\<close>, \<open>maxFontSize - minFontSize\<close> is \<open>Infinity\<close> or \<open>NaN\<close>, never
  \<open><= 1\<close>, and both assignments leave \<open>minFontSize = -Infinity\<close>.
\<close>

definition fitText :: "nat \<Rightarrow> measurer \<Rightarrow> jsstring \<Rightarrow> real \<Rightarrow> real \<Rightarrow> int \<Rightarrow> fit option" where
  "fitText fuel m txt wd ht maxWrap =
     (case floorDiv ht maxWrap of
        Num minFontSize \<Rightarrow> fitLoop fuel m txt wd ht maxWrap minFontSize ht
      | PosInfinity \<Rightarrow> Some Undefined
      | NaN \<Rightarrow> Some Undefined
      | NegInfinity \<Rightarrow> None)"

section \<open>The layout finisher\<close>

text \<open>
  The truncation step of \<open>calcLayout\<close>:
  \<^verbatim>\<open>if (lines.length > maxWrap) { lines.length = maxWrap; lines.at(-1).text += "..." }\<close>
  (the appended string is the one character U+2026). Assigning a negative length raises
  a \<open>RangeError\<close>; \<open>lines.at(-1)\<close> of an empty array is \<open>undefined\<close>, and reading its
  \<open>text\<close> raises a \<open>TypeError\<close>. The stored \<open>width\<close> is not touched.
\<close>

definition discardOverflow :: "line list \<Rightarrow> int \<Rightarrow> error + line list" where
  "discardOverflow ls maxWrap =
     (if int (length ls) > maxWrap then
        (if maxWrap < 0 then Inl RangeError
         else (let kept = take (nat maxWrap) ls
               in if kept = [] then Inl TypeError
                  else Inr (butlast kept @ [(last kept)\<lparr>text := text (last kept) @ ellipsis\<rparr>])))
      else Inr ls)"

text \<open>The coordinate loop of \<open>calcLayout\<close>, over the indices \<open>i = 0 .. lines.length - 1\<close>.\<close>

definition calcCoordinates :: "real \<Rightarrow> real \<Rightarrow> int \<Rightarrow> line list \<Rightarrow> placed_line list" where
  "calcCoordinates wd ht fontSize ls =
     (let offsetY = (ht - real_of_int fontSize * real (length ls)) / 2
      in map (\<lambda>(i, l). \<lparr>text = text l, width = width l,
                         x = (wd - width l) / 2,
                         y = offsetY + real_of_int fontSize * (real i + baselineRatio)\<rparr>)
           (enumerate 0 ls))"

text \<open>
  \<open>calcLayout\<close>. Destructuring \<open>undefined\<close> raises a \<open>TypeError\<close>. \<open>None\<close> means that the
  call does not return within the fuel.
\<close>

definition calcLayout :: "nat \<Rightarrow> measurer \<Rightarrow> jsstring \<Rightarrow> real \<Rightarrow> real \<Rightarrow> int \<Rightarrow> (error + layout) option" where
  "calcLayout fuel m txt wd ht maxWrap =
     (case fitText fuel m txt wd ht maxWrap of
        None \<Rightarrow> None
      | Some Undefined \<Rightarrow> Some (Inl TypeError)
      | Some (Fit fontSize ls0) \<Rightarrow>
          (case discardOverflow ls0 maxWrap of
             Inl e \<Rightarrow> Some (Inl e)
           | Inr ls \<Rightarrow>
               Some (Inr \<lparr>font = getFontFor fontSize,
                          lines = calcCoordinates wd ht fontSize ls\<rparr>)))"

section \<open>A measurer for the examples\<close>

text \<open>
  A fixed-pitch measurer: every character is \<open>r\<close> times the font size wide. It is not part
  of the source; the examples below run the engine on it.
\<close>

definition monospace :: "real \<Rightarrow> measurer" where
  "monospace r fontSize s = r * real_of_int fontSize * real (length s)"

section \<open>Counting the calls of the measurer\<close>

text \<open>
  The same loops, returning the number of calls of \<open>#measure\<close> they make instead of their
  result: the loop of \<open>#wrapText\<close> measures once in each iteration, \<open>#fitText\<close> calls
  \<open>#wrapText\<close> once in each iteration, and \<open>calcLayout\<close> measures nothing itself. The
  counts are those of the source on the same range of heights as the search itself.
\<close>

fun wrapLoopCalls :: "measurer \<Rightarrow> int \<Rightarrow> real \<Rightarrow> jsstring \<Rightarrow> line list \<times> line \<Rightarrow> nat" where
  "wrapLoopCalls m fontSize wd [] (ls, cur) = 0"
| "wrapLoopCalls m fontSize wd (c # cs) (ls, cur) =
     (let metrics = m fontSize (text cur @ [c])
      in if metrics > wd
         then Suc (wrapLoopCalls m fontSize wd cs
                     (ls @ [cur], \<lparr>text = [c], width = metrics - width cur\<rparr>))
         else Suc (wrapLoopCalls m fontSize wd cs
                     (ls, \<lparr>text = text cur @ [c], width = metrics\<rparr>)))"

definition wrapTextCalls :: "measurer \<Rightarrow> jsstring \<Rightarrow> int \<Rightarrow> real \<Rightarrow> nat" where
  "wrapTextCalls m txt fontSize wd = wrapLoopCalls m fontSize wd txt ([], \<lparr>text = [], width = 0\<rparr>)"

fun fitLoopCalls :: "nat \<Rightarrow> measurer \<Rightarrow> jsstring \<Rightarrow> real \<Rightarrow> real \<Rightarrow> int \<Rightarrow> int \<Rightarrow> real \<Rightarrow> nat option" where
  "fitLoopCalls 0 m txt wd ht maxWrap minFontSize maxFontSize = None"
| "fitLoopCalls (Suc fuel) m txt wd ht maxWrap minFontSize maxFontSize =
     (if real_of_int minFontSize \<le> maxFontSize then
        (let fontSize = \<lfloor>(real_of_int minFontSize + maxFontSize) / 2\<rfloor>;
             ls = wrapText m txt fontSize wd;
             calls = wrapTextCalls m txt fontSize wd;
             numOfLines = int (length ls);
             hasOverflow = (numOfLines > maxWrap \<or> real_of_int (fontSize * numOfLines) > ht)
         in if maxFontSize - real_of_int minFontSize \<le> 1 then Some calls
            else if hasOverflow
            then map_option (\<lambda>n. calls + n)
                   (fitLoopCalls fuel m txt wd ht maxWrap minFontSize (real_of_int (fontSize - 1)))
            else map_option (\<lambda>n. calls + n)
                   (fitLoopCalls fuel m txt wd ht maxWrap fontSize maxFontSize))
      else Some 0)"

definition fitTextCalls :: "nat \<Rightarrow> measurer \<Rightarrow> jsstring \<Rightarrow> real \<Rightarrow> real \<Rightarrow> int \<Rightarrow> nat option" where
  "fitTextCalls fuel m txt wd ht maxWrap =
     (case floorDiv ht maxWrap of
        Num minFontSize \<Rightarrow> fitLoopCalls fuel m txt wd ht maxWrap minFontSize ht
      | PosInfinity \<Rightarrow> Some 0
      | NaN \<Rightarrow> Some 0
      | NegInfinity \<Rightarrow> None)"

section \<open>Notions of the specification\<close>

text \<open>A text ends with the ellipsis character U+2026.\<close>

definition ends_with_ellipsis :: "jsstring \<Rightarrow> bool" where
  "ends_with_ellipsis s = (s \<noteq> [] \<and> [last s] = ellipsis)"

text \<open>
  The two constraints of the fitter's contract at a font size: the wrap has at most
  \<open>maxWrap\<close> lines, and \<open>fontSize * numberOfLines\<close> is at most \<open>height\<close>.
\<close>

definition fits :: "measurer \<Rightarrow> jsstring \<Rightarrow> real \<Rightarrow> real \<Rightarrow> int \<Rightarrow> int \<Rightarrow> bool" where
  "fits m txt wd ht maxWrap fontSize =
     (int (length (wrapText m txt fontSize wd)) \<le> maxWrap \<and>
      real_of_int (fontSize * int (length (wrapText m txt fontSize wd))) \<le> ht)"

text \<open>
  A split of a text into lines as the wrapper's contract allows it: the lines spell the
  text, none is empty, and each measures at most \<open>maxWidth\<close> at the font size or is a
  single character.
\<close>

definition valid_split :: "measurer \<Rightarrow> int \<Rightarrow> real \<Rightarrow> jsstring list \<Rightarrow> jsstring \<Rightarrow> bool" where
  "valid_split m fontSize wd parts txt =
     (concat parts = txt \<and>
      list_all (\<lambda>p. p \<noteq> [] \<and> (m fontSize p \<le> wd \<or> length p = 1)) parts)"

text \<open>
  The number of lines that the loop of \<open>#wrapText\<close> and the final push go on to emit, as
  a function of the text of the current line and the remaining characters.
\<close>

fun nlines :: "measurer \<Rightarrow> int \<Rightarrow> real \<Rightarrow> jsstring \<Rightarrow> jsstring \<Rightarrow> nat" where
  "nlines m fontSize wd cur [] = (if cur \<noteq> [] then 1 else 0)"
| "nlines m fontSize wd cur (c # cs) =
     (if m fontSize (cur @ [c]) > wd then Suc (nlines m fontSize wd [c] cs)
      else nlines m fontSize wd (cur @ [c]) cs)"

section \<open>Properties of the wrapper\<close>

lemma wrapLoop_concat:
  "wrapLoop m fontSize wd cs (ls, cur) = (ls', cur') \<Longrightarrow>
   concat (map text ls') @ text cur' = concat (map text ls) @ text cur @ cs"
proof (induction cs arbitrary: ls cur)
  case Nil
  then show ?case by simp
next
  case (Cons c cs)
  show ?case
  proof (cases "m fontSize (text cur @ [c]) > wd")
    case True
    with Cons.prems have
      "wrapLoop m fontSize wd cs (ls @ [cur], \<lparr>text = [c], width = m fontSize (text cur @ [c]) - width cur\<rparr>) = (ls', cur')"
      by (simp add: Let_def)
    from Cons.IH [OF this] show ?thesis by simp
  next
    case False
    with Cons.prems have
      "wrapLoop m fontSize wd cs (ls, \<lparr>text = text cur @ [c], width = m fontSize (text cur @ [c])\<rparr>) = (ls', cur')"
      by (simp add: Let_def)
    from Cons.IH [OF this] show ?thesis by simp
  qed
qed

lemma concat_wrapText:
  "concat (map text (wrapText m txt fontSize wd)) = txt"
proof -
  obtain ls cur where w: "wrapLoop m fontSize wd txt ([], \<lparr>text = [], width = 0\<rparr>) = (ls, cur)"
    by (cases "wrapLoop m fontSize wd txt ([], \<lparr>text = [], width = 0\<rparr>)")
  from wrapLoop_concat [OF w] have "concat (map text ls) @ text cur = txt"
    by simp
  with w show ?thesis
    by (auto simp: wrapText_def)
qed

text \<open>
  C10. Concatenating the texts of the lines of \<open>wrapText\<close>, in order, gives the input
  text back: wrapping drops, repeats and reorders nothing.
\<close>

theorem wrapText_concat:
  "concat (map text (wrapText m txt fontSize wd)) = txt"
  by (rule concat_wrapText)

section \<open>Properties of the fitter and the finisher\<close>

lemma midpoint_bounds:
  fixes mn :: int and mx :: real
  assumes "real_of_int mn \<le> mx"
  shows "mn \<le> \<lfloor>(real_of_int mn + mx) / 2\<rfloor>" and "real_of_int \<lfloor>(real_of_int mn + mx) / 2\<rfloor> \<le> mx"
proof -
  from assms have "real_of_int mn \<le> (real_of_int mn + mx) / 2" by simp
  then show "mn \<le> \<lfloor>(real_of_int mn + mx) / 2\<rfloor>" by (simp add: le_floor_iff)
  have "real_of_int \<lfloor>(real_of_int mn + mx) / 2\<rfloor> \<le> (real_of_int mn + mx) / 2" by (rule of_int_floor_le)
  also from assms have "\<dots> \<le> mx" by simp
  finally show "real_of_int \<lfloor>(real_of_int mn + mx) / 2\<rfloor> \<le> mx" .
qed

lemma fitLoop_Fit:
  "fitLoop fuel m txt wd ht maxWrap mn mx = Some (Fit fontSize ls) \<Longrightarrow>
   mn \<le> fontSize \<and> real_of_int fontSize \<le> mx \<and> ls = wrapText m txt fontSize wd"
proof (induction fuel arbitrary: mn mx)
  case 0
  then show ?case by simp
next
  case (Suc fuel)
  let ?mid = "\<lfloor>(real_of_int mn + mx) / 2\<rfloor>"
  let ?n = "int (length (wrapText m txt ?mid wd))"
  from Suc.prems have le: "real_of_int mn \<le> mx"
    by (simp split: if_splits)
  note mid = midpoint_bounds [OF le]
  show ?case
  proof (cases "mx - real_of_int mn \<le> 1")
    case True
    with Suc.prems le have "fontSize = ?mid" "ls = wrapText m txt ?mid wd"
      by (auto simp: Let_def)
    with mid show ?thesis by simp
  next
    case far: False
    show ?thesis
    proof (cases "?n > maxWrap \<or> real_of_int (?mid * ?n) > ht")
      case True
      with Suc.prems le far
      have "fitLoop fuel m txt wd ht maxWrap mn (real_of_int (?mid - 1)) = Some (Fit fontSize ls)"
        by (simp add: Let_def)
      from Suc.IH [OF this] mid show ?thesis by simp
    next
      case False
      with Suc.prems le far
      have "fitLoop fuel m txt wd ht maxWrap ?mid mx = Some (Fit fontSize ls)"
        by (simp add: Let_def)
      from Suc.IH [OF this] mid show ?thesis by simp
    qed
  qed
qed

lemma fitText_Fit:
  assumes "fitText fuel m txt wd ht maxWrap = Some (Fit fontSize ls)"
  shows "maxWrap \<noteq> 0" and "\<lfloor>ht / real_of_int maxWrap\<rfloor> \<le> fontSize" and "fontSize \<le> \<lfloor>ht\<rfloor>"
    and "ls = wrapText m txt fontSize wd"
proof -
  from assms show nz: "maxWrap \<noteq> 0"
    by (auto simp: fitText_def floorDiv_def split: if_splits)
  with assms have "fitLoop fuel m txt wd ht maxWrap \<lfloor>ht / real_of_int maxWrap\<rfloor> ht = Some (Fit fontSize ls)"
    by (simp add: fitText_def floorDiv_def)
  from fitLoop_Fit [OF this]
  show "\<lfloor>ht / real_of_int maxWrap\<rfloor> \<le> fontSize" and "fontSize \<le> \<lfloor>ht\<rfloor>"
    and "ls = wrapText m txt fontSize wd"
    by (simp_all add: le_floor_iff)
qed

lemma discardOverflow_Inr:
  assumes "discardOverflow ls maxWrap = Inr ls'"
  shows "int (length ls') \<le> maxWrap" and "length ls' \<le> length ls"
    and "map width ls' = take (length ls') (map width ls)"
proof -
  show "int (length ls') \<le> maxWrap"
    using assms by (auto simp: discardOverflow_def Let_def split: if_splits)
  show "length ls' \<le> length ls"
    using assms by (auto simp: discardOverflow_def Let_def split: if_splits)
  show "map width ls' = take (length ls') (map width ls)"
  proof (cases "int (length ls) > maxWrap")
    case False
    with assms show ?thesis by (simp add: discardOverflow_def)
  next
    case True
    let ?kept = "take (nat maxWrap) ls"
    from True assms have ne: "?kept \<noteq> []" and pos: "0 \<le> maxWrap"
      and eq: "ls' = butlast ?kept @ [(last ?kept)\<lparr>text := text (last ?kept) @ ellipsis\<rparr>]"
      by (auto simp: discardOverflow_def Let_def split: if_splits)
    have "map width ls' = map width (butlast ?kept @ [last ?kept])"
      unfolding eq by simp
    also from ne have "\<dots> = map width ?kept" by simp
    also have "\<dots> = take (nat maxWrap) (map width ls)" by (simp add: take_map)
    finally have *: "map width ls' = take (nat maxWrap) (map width ls)" .
    from eq ne have "length ls' = length ?kept" by simp
    with True pos have "length ls' = nat maxWrap" by simp
    with * show ?thesis by simp
  qed
qed

lemma length_calcCoordinates: "length (calcCoordinates wd ht fontSize ls) = length ls"
  by (simp add: calcCoordinates_def)

lemma nth_calcCoordinates:
  "i < length ls \<Longrightarrow>
   calcCoordinates wd ht fontSize ls ! i =
     \<lparr>text = text (ls ! i), width = width (ls ! i), x = (wd - width (ls ! i)) / 2,
      y = (ht - real_of_int fontSize * real (length ls)) / 2 + real_of_int fontSize * (real i + baselineRatio)\<rparr>"
  by (simp add: calcCoordinates_def nth_enumerate_eq)

lemma calcLayout_Inr:
  assumes "calcLayout fuel m txt wd ht maxWrap = Some (Inr res)"
  obtains fontSize ls0 ls where
    "fitText fuel m txt wd ht maxWrap = Some (Fit fontSize ls0)"
    "discardOverflow ls0 maxWrap = Inr ls"
    "res = \<lparr>font = getFontFor fontSize, lines = calcCoordinates wd ht fontSize ls\<rparr>"
  using assms
  by (auto simp: calcLayout_def split: option.splits fit.splits sum.splits)

text \<open>The definitions that run the engine on a concrete input.\<close>

lemmas run_simps =
  calcLayout_def fitText_def floorDiv_def wrapText_def monospace_def
  discardOverflow_def calcCoordinates_def getFontFor_def baselineRatio_def ellipsis_def
  enumerate_eq_zip upt_rec eval_nat_numeral

text \<open>
  C3, as amended. Every layout that \<open>calcLayout\<close> returns has at most \<open>maxWrap\<close> lines.
  Its lines are in top-to-bottom order, the \<open>y\<close> coordinates strictly increasing along the
  sequence, whenever the chosen font size is positive (for a height of at most \<open>2 ^ 52\<close>);
  and the chosen font size is positive whenever \<open>height \<ge> maxWrap\<close>.
\<close>

theorem calcLayout_line_cap:
  assumes "calcLayout fuel m txt wd ht maxWrap = Some (Inr res)"
  shows "int (length (lines res)) \<le> maxWrap \<and>
         (\<exists>fontSize. font res = getFontFor fontSize \<and>
            (real_of_int maxWrap \<le> ht \<longrightarrow> 0 < fontSize) \<and>
            (0 < fontSize \<and> ht \<le> 2 ^ 52 \<longrightarrow> sorted_wrt (<) (map y (lines res))))"
proof -
  from assms obtain fontSize ls0 ls where
    f: "fitText fuel m txt wd ht maxWrap = Some (Fit fontSize ls0)" and
    d: "discardOverflow ls0 maxWrap = Inr ls" and
    r: "res = \<lparr>font = getFontFor fontSize, lines = calcCoordinates wd ht fontSize ls\<rparr>"
    by (rule calcLayout_Inr)
  from r have len: "length (lines res) = length ls"
    by (simp add: length_calcCoordinates)
  from discardOverflow_Inr(1) [OF d] len have cap: "int (length (lines res)) \<le> maxWrap"
    by simp
  from cap fitText_Fit(1) [OF f] have pos: "0 < maxWrap" by linarith
  have size: "0 < fontSize" if "real_of_int maxWrap \<le> ht"
  proof -
    from that pos have "1 \<le> ht / real_of_int maxWrap"
      by (simp add: le_divide_eq)
    then have "1 \<le> \<lfloor>ht / real_of_int maxWrap\<rfloor>"
      by (simp add: le_floor_iff)
    with fitText_Fit(2) [OF f] show ?thesis by linarith
  qed
  have order: "sorted_wrt (<) (map y (lines res))" if fs: "0 < fontSize"
    unfolding sorted_wrt_iff_nth_less
  proof (intro allI impI)
    fix i j
    assume ij: "i < j" and j: "j < length (map y (lines res))"
    with len have "i < length ls" "j < length ls" by simp_all
    moreover from ij fs
    have "real_of_int fontSize * (real i + baselineRatio) < real_of_int fontSize * (real j + baselineRatio)"
      by simp
    ultimately show "map y (lines res) ! i < map y (lines res) ! j"
      using r by (simp add: length_calcCoordinates nth_calcCoordinates)
  qed
  from r have "font res = getFontFor fontSize" by simp
  with cap size order show ?thesis by blast
qed

theorem calcLayout_line_cap_witness:
  "calcLayout 2 (monospace 1) [0x61, 0x62, 0x63, 0x64, 0x65] 4 4 2 =
     Some (Inr \<lparr>font = Px_sans_serif 2,
                lines = [\<lparr>text = [0x61, 0x62], width = 4, x = 0, y = 44 / 25\<rparr>,
                         \<lparr>text = [0x63, 0x64, 0x2026], width = 4, x = 0, y = 94 / 25\<rparr>]\<rparr>) \<and>
   int (length [\<lparr>text = [0x61, 0x62], width = 4, x = 0, y = 44 / 25\<rparr>,
                \<lparr>text = [0x63, 0x64, 0x2026 :: 16 word], width = 4, x = 0, y = 94 / 25\<rparr>]) \<le> 2 \<and>
   real_of_int 2 \<le> 4 \<and> (0::int) < 2 \<and> (4::real) \<le> 2 ^ 52 \<and>
   sorted_wrt (<) [44 / 25, 94 / 25 :: real]"
proof -
  have h: "calcLayout 2 (monospace 1) [0x61, 0x62, 0x63, 0x64, 0x65] 4 4 2 =
     Some (Inr \<lparr>font = Px_sans_serif 2,
                lines = [\<lparr>text = [0x61, 0x62], width = 4, x = 0, y = 44 / 25\<rparr>,
                         \<lparr>text = [0x63, 0x64, 0x2026], width = 4, x = 0, y = 94 / 25\<rparr>]\<rparr>)"
    by (simp add: run_simps)
  from calcLayout_line_cap [OF h] h show ?thesis by (simp add: getFontFor_def)
qed

text \<open>
  C3 as stated fails for a negative height: the font size is then negative and the lines
  come bottom-to-top. Here the text \<open>ab\<close>, at the font size \<open>-1\<close> with every character
  of width 1, is wrapped into the width 1 for the height \<open>-1\<close> and \<open>maxWrap = 2\<close>: the
  first line has \<open>y = -0.38\<close> and the second \<open>y = -1.38\<close>.
\<close>

theorem calcLayout_negative_height_counterexample:
  "calcLayout 1 (monospace (- 1)) [0x61, 0x62] 1 (- 1) 2 =
     Some (Inr \<lparr>font = Px_sans_serif (- 1),
                lines = [\<lparr>text = [0x61], width = 1, x = 0, y = - (19 / 50)\<rparr>,
                         \<lparr>text = [0x62], width = 1, x = 0, y = - (69 / 50)\<rparr>]\<rparr>) \<and>
   - (69 / 50) < (- (19 / 50) :: real)"
proof -
  have "\<lfloor>- 1 :: real\<rfloor> = - 1"
    by (simp add: floor_eq_iff)
  then show ?thesis
    by (simp add: run_simps)
qed

text \<open>
  C5. In every layout that \<open>calcLayout\<close> returns, with the font size \<open>fontSize\<close> chosen by
  the fitter, the line at index \<open>i\<close> has \<open>x = (width - line.width) / 2\<close> and
  \<open>y = offsetY + fontSize * (i + 0.88)\<close> with
  \<open>offsetY = (height - fontSize * lines.length) / 2\<close>; so every line is centred on its own:
  \<open>x + line.width / 2 = width / 2\<close>.
\<close>

theorem calcLayout_coordinates:
  assumes "calcLayout fuel m txt wd ht maxWrap = Some (Inr res)"
  shows "\<exists>fontSize ls0. fitText fuel m txt wd ht maxWrap = Some (Fit fontSize ls0) \<and>
           font res = getFontFor fontSize \<and>
           (\<forall>i < length (lines res).
              x (lines res ! i) = (wd - width (lines res ! i)) / 2 \<and>
              y (lines res ! i) =
                (ht - real_of_int fontSize * real (length (lines res))) / 2
                  + real_of_int fontSize * (real i + 88 / 100) \<and>
              x (lines res ! i) + width (lines res ! i) / 2 = wd / 2)"
proof -
  from assms obtain fontSize ls0 ls where
    f: "fitText fuel m txt wd ht maxWrap = Some (Fit fontSize ls0)" and
    r: "res = \<lparr>font = getFontFor fontSize, lines = calcCoordinates wd ht fontSize ls\<rparr>"
    by (rule calcLayout_Inr)
  have "x (lines res ! i) = (wd - width (lines res ! i)) / 2 \<and>
        y (lines res ! i) =
          (ht - real_of_int fontSize * real (length (lines res))) / 2
            + real_of_int fontSize * (real i + 88 / 100) \<and>
        x (lines res ! i) + width (lines res ! i) / 2 = wd / 2"
    if "i < length (lines res)" for i
    using that r
    by (simp add: length_calcCoordinates nth_calcCoordinates baselineRatio_def diff_divide_distrib)
  with f r show ?thesis by auto
qed

theorem calcLayout_coordinates_witness:
  "calcLayout 1 (monospace (1 / 2)) [0x48, 0x69] 7 3 1 =
     Some (Inr \<lparr>font = Px_sans_serif 3,
                lines = [\<lparr>text = [0x48, 0x69], width = 3, x = 2, y = 66 / 25\<rparr>]\<rparr>) \<and>
   font \<lparr>font = Px_sans_serif 3,
         lines = [\<lparr>text = [0x48, 0x69 :: 16 word], width = 3, x = 2, y = 66 / 25\<rparr>]\<rparr> = getFontFor 3 \<and>
   x \<lparr>text = [0x48, 0x69 :: 16 word], width = 3, x = 2, y = 66 / 25\<rparr> = (7 - 3) / 2 \<and>
   y \<lparr>text = [0x48, 0x69 :: 16 word], width = 3, x = 2, y = 66 / 25\<rparr> = (3 - 3 * 1) / 2 + 3 * (0 + 88 / 100) \<and>
   x \<lparr>text = [0x48, 0x69 :: 16 word], width = 3, x = 2, y = 66 / 25\<rparr> + 3 / 2 = 7 / 2"
proof -
  have h: "calcLayout 1 (monospace (1 / 2)) [0x48, 0x69] 7 3 1 =
     Some (Inr \<lparr>font = Px_sans_serif 3,
                lines = [\<lparr>text = [0x48, 0x69], width = 3, x = 2, y = 66 / 25\<rparr>]\<rparr>)"
    by (simp add: calcLayout_def fitText_def floorDiv_def wrapText_def monospace_def
        discardOverflow_def calcCoordinates_def getFontFor_def baselineRatio_def
        enumerate_eq_zip upt_rec eval_nat_numeral)
  from calcLayout_coordinates [OF h] h show ?thesis
    by (simp add: getFontFor_def)
qed

lemma calcLayout_Fit:
  assumes "fitText fuel m txt wd ht maxWrap = Some (Fit fontSize ls0)"
    and "discardOverflow ls0 maxWrap = Inr ls"
  shows "calcLayout fuel m txt wd ht maxWrap =
     Some (Inr \<lparr>font = getFontFor fontSize, lines = calcCoordinates wd ht fontSize ls\<rparr>)"
  using assms by (simp add: calcLayout_def)

lemma map_text_calcCoordinates: "map text (calcCoordinates wd ht fontSize ls) = map text ls"
  by (rule nth_equalityI) (simp_all add: length_calcCoordinates nth_calcCoordinates)

lemma map_width_calcCoordinates: "map width (calcCoordinates wd ht fontSize ls) = map width ls"
  by (rule nth_equalityI) (simp_all add: length_calcCoordinates nth_calcCoordinates)

lemma discardOverflow_truncates:
  assumes "int (length ls) > maxWrap" and "1 \<le> maxWrap"
  shows "\<exists>ls'. discardOverflow ls maxWrap = Inr ls' \<and> length ls' = nat maxWrap \<and>
     map text ls' = take (nat maxWrap - 1) (map text ls) @ [text (ls ! (nat maxWrap - 1)) @ ellipsis]"
proof -
  let ?n = "nat maxWrap"
  let ?kept = "take ?n ls"
  from assms have n: "0 < ?n" "?n \<le> length ls" by simp_all
  then have ne: "?kept \<noteq> []" by auto
  let ?ls' = "butlast ?kept @ [(last ?kept)\<lparr>text := text (last ?kept) @ ellipsis\<rparr>]"
  from assms ne have d: "discardOverflow ls maxWrap = Inr ?ls'"
    by (simp add: discardOverflow_def Let_def)
  from n have len: "length ?ls' = ?n" by simp
  from n have "butlast ?kept = take (?n - 1) ls"
    by (simp add: butlast_take)
  moreover have "last ?kept = ls ! (?n - 1)"
  proof -
    from ne have "last ?kept = ?kept ! (length ?kept - 1)"
      by (rule last_conv_nth)
    also from n have "length ?kept = ?n" by simp
    also from n have "?kept ! (?n - 1) = ls ! (?n - 1)" by simp
    finally show ?thesis .
  qed
  ultimately have "map text ?ls' = take (?n - 1) (map text ls) @ [text (ls ! (?n - 1)) @ ellipsis]"
    by (simp add: take_map)
  with d len show ?thesis by blast
qed

lemma wrapText_chars:
  assumes "i < length (wrapText m txt fontSize wd)"
  shows "set (text (wrapText m txt fontSize wd ! i)) \<subseteq> set txt"
proof -
  let ?ls = "wrapText m txt fontSize wd"
  from assms have "text (?ls ! i) \<in> set (map text ?ls)" by simp
  then have "set (text (?ls ! i)) \<subseteq> set (concat (map text ?ls))" by auto
  then show ?thesis by (simp add: concat_wrapText)
qed

text \<open>
  C4, as amended. When the fitter returns a wrap with more than \<open>maxWrap\<close> lines and
  \<open>maxWrap \<ge> 1\<close>, \<open>calcLayout\<close> keeps exactly the first \<open>maxWrap\<close> lines, appends the
  ellipsis to the text of the last kept line and leaves every other text and every stored
  width as the wrapper produced it. The last text then ends with the ellipsis; the other
  lines do not end with it provided the input text does not contain that character.
\<close>

theorem calcLayout_truncates:
  assumes "fitText fuel m txt wd ht maxWrap = Some (Fit fontSize ls0)"
    and "int (length ls0) > maxWrap" and "1 \<le> maxWrap"
  shows "\<exists>res. calcLayout fuel m txt wd ht maxWrap = Some (Inr res) \<and>
           length (lines res) = nat maxWrap \<and>
           map text (lines res) =
             take (nat maxWrap - 1) (map text ls0) @ [text (ls0 ! (nat maxWrap - 1)) @ ellipsis] \<and>
           map width (lines res) = take (nat maxWrap) (map width ls0) \<and>
           ends_with_ellipsis (text (last (lines res))) \<and>
           (0x2026 \<notin> set txt \<longrightarrow>
              (\<forall>i < nat maxWrap - 1. \<not> ends_with_ellipsis (text (lines res ! i))))"
proof -
  let ?n = "nat maxWrap"
  from discardOverflow_truncates [OF assms(2,3)] obtain ls where
    d: "discardOverflow ls0 maxWrap = Inr ls" and len: "length ls = ?n" and
    txts: "map text ls = take (?n - 1) (map text ls0) @ [text (ls0 ! (?n - 1)) @ ellipsis]"
    by blast
  let ?res = "\<lparr>font = getFontFor fontSize, lines = calcCoordinates wd ht fontSize ls\<rparr>"
  have c: "calcLayout fuel m txt wd ht maxWrap = Some (Inr ?res)"
    by (rule calcLayout_Fit [OF assms(1) d])
  have l: "length (lines ?res) = ?n"
    using len by (simp add: length_calcCoordinates)
  have t: "map text (lines ?res) = take (?n - 1) (map text ls0) @ [text (ls0 ! (?n - 1)) @ ellipsis]"
    using txts by (simp add: map_text_calcCoordinates)
  have w: "map width (lines ?res) = take ?n (map width ls0)"
    using discardOverflow_Inr(3) [OF d] len by (simp add: map_width_calcCoordinates)
  from assms(3) l have ne: "lines ?res \<noteq> []" by auto
  then have "text (last (lines ?res)) = last (map text (lines ?res))"
    by (simp add: last_map)
  also have "\<dots> = text (ls0 ! (?n - 1)) @ ellipsis"
    unfolding t by simp
  finally have e: "ends_with_ellipsis (text (last (lines ?res)))"
    by (simp add: ends_with_ellipsis_def ellipsis_def)
  have o: "\<not> ends_with_ellipsis (text (lines ?res ! i))"
    if free: "0x2026 \<notin> set txt" and i: "i < ?n - 1" for i
  proof
    assume ends: "ends_with_ellipsis (text (lines ?res ! i))"
    from i l have "text (lines ?res ! i) = map text (lines ?res) ! i"
      by simp
    also from i assms(2) have "\<dots> = text (ls0 ! i)"
      unfolding t by (simp add: nth_append)
    finally have eq: "text (lines ?res ! i) = text (ls0 ! i)" .
    from i assms(2) have "i < length ls0" by simp
    with fitText_Fit(4) [OF assms(1)] have "set (text (ls0 ! i)) \<subseteq> set txt"
      by (simp add: wrapText_chars)
    moreover from ends eq have "0x2026 \<in> set (text (ls0 ! i))"
      by (auto simp: ends_with_ellipsis_def ellipsis_def dest: last_in_set)
    ultimately show False using free by auto
  qed
  from c l t w e o show ?thesis by blast
qed

theorem calcLayout_truncates_witness:
  "fitText 2 (monospace 1) [0x61, 0x62, 0x63, 0x64, 0x65, 0x66] 2 6 3 =
     Some (Fit 2 [\<lparr>text = [0x61], width = 2\<rparr>, \<lparr>text = [0x62], width = 2\<rparr>,
                  \<lparr>text = [0x63], width = 2\<rparr>, \<lparr>text = [0x64], width = 2\<rparr>,
                  \<lparr>text = [0x65], width = 2\<rparr>, \<lparr>text = [0x66], width = 2\<rparr>]) \<and>
   (3::int) < 6 \<and> (1::int) \<le> 3 \<and> (0x2026 :: 16 word) \<notin> {0x61, 0x62, 0x63, 0x64, 0x65, 0x66} \<and>
   calcLayout 2 (monospace 1) [0x61, 0x62, 0x63, 0x64, 0x65, 0x66] 2 6 3 =
     Some (Inr \<lparr>font = Px_sans_serif 2,
                lines = [\<lparr>text = [0x61], width = 2, x = 0, y = 44 / 25\<rparr>,
                         \<lparr>text = [0x62], width = 2, x = 0, y = 94 / 25\<rparr>,
                         \<lparr>text = [0x63, 0x2026], width = 2, x = 0, y = 144 / 25\<rparr>]\<rparr>) \<and>
   ends_with_ellipsis [0x63, 0x2026] \<and> \<not> ends_with_ellipsis [0x61] \<and> \<not> ends_with_ellipsis [0x62]"
proof -
  have f: "fitText 2 (monospace 1) [0x61, 0x62, 0x63, 0x64, 0x65, 0x66] 2 6 3 =
     Some (Fit 2 [\<lparr>text = [0x61], width = 2\<rparr>, \<lparr>text = [0x62], width = 2\<rparr>,
                  \<lparr>text = [0x63], width = 2\<rparr>, \<lparr>text = [0x64], width = 2\<rparr>,
                  \<lparr>text = [0x65], width = 2\<rparr>, \<lparr>text = [0x66], width = 2\<rparr>])"
    by (simp add: run_simps)
  have c: "calcLayout 2 (monospace 1) [0x61, 0x62, 0x63, 0x64, 0x65, 0x66] 2 6 3 =
     Some (Inr \<lparr>font = Px_sans_serif 2,
                lines = [\<lparr>text = [0x61], width = 2, x = 0, y = 44 / 25\<rparr>,
                         \<lparr>text = [0x62], width = 2, x = 0, y = 94 / 25\<rparr>,
                         \<lparr>text = [0x63, 0x2026], width = 2, x = 0, y = 144 / 25\<rparr>]\<rparr>)"
    by (simp add: run_simps)
  from calcLayout_truncates [OF f] f c show ?thesis
    by (simp add: ends_with_ellipsis_def ellipsis_def)
qed

text \<open>
  C4 as stated fails when the text itself contains the ellipsis character: here the wrap
  has three lines for \<open>maxWrap = 2\<close>, and the first emitted line, which is not the last,
  ends with the ellipsis of the input.
\<close>

theorem calcLayout_ellipsis_counterexample:
  "fitText 1 (monospace 1) [0x61, 0x2026, 0x62, 0x2026, 0x63] 2 2 2 =
     Some (Fit 1 [\<lparr>text = [0x61, 0x2026], width = 2\<rparr>, \<lparr>text = [0x62, 0x2026], width = 2\<rparr>,
                  \<lparr>text = [0x63], width = 1\<rparr>]) \<and>
   calcLayout 1 (monospace 1) [0x61, 0x2026, 0x62, 0x2026, 0x63] 2 2 2 =
     Some (Inr \<lparr>font = Px_sans_serif 1,
                lines = [\<lparr>text = [0x61, 0x2026], width = 2, x = 0, y = 22 / 25\<rparr>,
                         \<lparr>text = [0x62, 0x2026, 0x2026], width = 2, x = 0, y = 47 / 25\<rparr>]\<rparr>) \<and>
   ends_with_ellipsis [0x61, 0x2026]"
  by (simp add: run_simps ends_with_ellipsis_def)

text \<open>
  C6, as amended. \<open>calcLayout\<close> validates none of its arguments. With \<open>maxWrap = 0\<close> and
  \<open>height \<ge> 0\<close> the search loop is not entered, \<open>#fitText\<close> returns \<open>undefined\<close> and the
  destructuring in \<open>calcLayout\<close> raises a \<open>TypeError\<close>; with \<open>maxWrap \<le> 0\<close> no layout is
  ever returned.
\<close>

theorem calcLayout_no_validation:
  "(0 \<le> ht \<longrightarrow> calcLayout fuel m txt wd ht 0 = Some (Inl TypeError)) \<and>
   (maxWrap \<le> 0 \<longrightarrow> calcLayout fuel m txt wd ht maxWrap \<noteq> Some (Inr res))"
proof (intro conjI impI)
  assume "0 \<le> ht"
  then show "calcLayout fuel m txt wd ht 0 = Some (Inl TypeError)"
    by (simp add: calcLayout_def fitText_def floorDiv_def)
next
  assume neg: "maxWrap \<le> 0"
  show "calcLayout fuel m txt wd ht maxWrap \<noteq> Some (Inr res)"
  proof
    assume "calcLayout fuel m txt wd ht maxWrap = Some (Inr res)"
    then obtain fontSize ls0 ls where
      f: "fitText fuel m txt wd ht maxWrap = Some (Fit fontSize ls0)" and
      d: "discardOverflow ls0 maxWrap = Inr ls"
      by (rule calcLayout_Inr)
    from discardOverflow_Inr(1) [OF d] fitText_Fit(1) [OF f] neg show False
      by simp
  qed
qed

theorem calcLayout_no_validation_witness:
  "(0::real) \<le> 4 \<and> calcLayout 1 (monospace 1) [0x61] 10 4 0 = Some (Inl TypeError) \<and>
   (- 1 :: int) \<le> 0 \<and> calcLayout 8 (monospace 1) [0x61] 10 4 (- 1) = Some (Inl RangeError)"
proof -
  have r: "calcLayout 8 (monospace 1) [0x61] 10 4 (- 1) = Some (Inl RangeError)"
    by (simp add: run_simps)
  from calcLayout_no_validation [of 4 1 "monospace 1" "[0x61]" 10 "- 1"] r show ?thesis
    by simp
qed

text \<open>
  C6 as stated fails for a width that is not positive: with \<open>width = 0\<close> the call returns a
  layout and raises nothing.
\<close>

theorem calcLayout_nonpositive_width_counterexample:
  "calcLayout 1 (monospace 1) [0x61] 0 4 1 =
     Some (Inr \<lparr>font = Px_sans_serif 4,
                lines = [\<lparr>text = [0x2026], width = 0, x = 0, y = 88 / 25\<rparr>]\<rparr>)"
  by (simp add: run_simps)

text \<open>
  The chosen font size lies between \<open>floor(height / maxWrap)\<close> and \<open>floor(height)\<close>, and
  with \<open>maxWrap = 1\<close> the search range is the single size \<open>floor(height)\<close>, which is
  returned whatever the text.
\<close>

lemma fitText_range:
  assumes "fitText fuel m txt wd ht maxWrap = Some (Fit fontSize ls)"
  shows "\<lfloor>ht / real_of_int maxWrap\<rfloor> \<le> fontSize \<and> fontSize \<le> \<lfloor>ht\<rfloor> \<and>
         fitText (Suc k) m txt wd ht 1 = Some (Fit \<lfloor>ht\<rfloor> (wrapText m txt \<lfloor>ht\<rfloor> wd))"
proof -
  define f where "f = real_of_int \<lfloor>ht\<rfloor>"
  have lo: "f \<le> ht" and hi: "ht < f + 1"
    unfolding f_def by linarith+
  from lo hi have "f \<le> (f + ht) / 2" and "(f + ht) / 2 < f + 1" and far: "ht - f \<le> 1"
    by simp_all
  then have mid: "\<lfloor>(real_of_int \<lfloor>ht\<rfloor> + ht) / 2\<rfloor> = \<lfloor>ht\<rfloor>"
    unfolding f_def by (intro floor_unique) simp_all
  from far have "ht - real_of_int \<lfloor>ht\<rfloor> \<le> 1"
    by (simp add: f_def)
  with mid have "fitText (Suc k) m txt wd ht 1 = Some (Fit \<lfloor>ht\<rfloor> (wrapText m txt \<lfloor>ht\<rfloor> wd))"
    by (simp add: fitText_def floorDiv_def Let_def)
  with fitText_Fit(2,3) [OF assms] show ?thesis by simp
qed

section \<open>Termination of the search\<close>

lemma wrapLoopCalls_length: "wrapLoopCalls m fontSize wd cs (ls, cur) = length cs"
  by (induction cs arbitrary: ls cur) (simp_all add: Let_def)

lemma wrapTextCalls_length: "wrapTextCalls m txt fontSize wd = length txt"
  by (simp add: wrapTextCalls_def wrapLoopCalls_length)

lemma int_midpoint: "\<lfloor>(real_of_int a + real_of_int b) / 2\<rfloor> = (a + b) div 2"
proof -
  have "(real_of_int a + real_of_int b) / 2 = real_of_int (a + b) / real_of_int 2"
    by simp
  then show ?thesis
    by (simp only: floor_divide_of_int_eq)
qed

lemma fitLoop_int_returns:
  assumes "mn \<le> mx" and "mx - mn \<le> 2 ^ k"
  shows "\<exists>fontSize n.
           fitLoop (Suc k) m txt wd ht maxWrap mn (real_of_int mx) =
             Some (Fit fontSize (wrapText m txt fontSize wd)) \<and>
           fitLoopCalls (Suc k) m txt wd ht maxWrap mn (real_of_int mx) = Some n \<and>
           n \<le> Suc k * length txt"
  using assms
proof (induction k arbitrary: mn mx)
  case 0
  then have "real_of_int mx - real_of_int mn \<le> 1"
    by (metis of_int_diff of_int_le_1_iff power_0)
  with 0 show ?case
    by (simp add: Let_def wrapTextCalls_length)
next
  case (Suc k)
  let ?mid = "(mn + mx) div 2"
  let ?n = "int (length (wrapText m txt ?mid wd))"
  from Suc.prems have le: "real_of_int mn \<le> real_of_int mx" by simp
  show ?case
  proof (cases "mx - mn \<le> 1")
    case True
    then have "real_of_int mx - real_of_int mn \<le> 1"
      by (metis of_int_diff of_int_le_1_iff)
    with le show ?thesis
      by (simp add: Let_def wrapTextCalls_length int_midpoint)
  next
    case False
    then have far: "\<not> real_of_int mx - real_of_int mn \<le> 1"
      by (metis of_int_diff of_int_le_1_iff)
    define P :: int where "P = 2 ^ k"
    from Suc.prems have d: "mx - mn \<le> 2 * P" by (simp add: P_def)
    show ?thesis
    proof (cases "?n > maxWrap \<or> real_of_int (?mid * ?n) > ht")
      case True
      from False d have "mn \<le> ?mid - 1" and "(?mid - 1) - mn \<le> P" by linarith+
      then have "\<exists>fontSize n.
           fitLoop (Suc k) m txt wd ht maxWrap mn (real_of_int (?mid - 1)) =
             Some (Fit fontSize (wrapText m txt fontSize wd)) \<and>
           fitLoopCalls (Suc k) m txt wd ht maxWrap mn (real_of_int (?mid - 1)) = Some n \<and>
           n \<le> Suc k * length txt"
        unfolding P_def by (rule Suc.IH)
      then obtain fontSize n where
        "fitLoop (Suc k) m txt wd ht maxWrap mn (real_of_int (?mid - 1)) =
             Some (Fit fontSize (wrapText m txt fontSize wd))"
        "fitLoopCalls (Suc k) m txt wd ht maxWrap mn (real_of_int (?mid - 1)) = Some n"
        "n \<le> Suc k * length txt"
        by blast
      with le far True have
        "fitLoop (Suc (Suc k)) m txt wd ht maxWrap mn (real_of_int mx) =
             Some (Fit fontSize (wrapText m txt fontSize wd)) \<and>
         fitLoopCalls (Suc (Suc k)) m txt wd ht maxWrap mn (real_of_int mx) = Some (length txt + n) \<and>
         length txt + n \<le> Suc (Suc k) * length txt"
        by (simp add: fitLoop.simps(2) [of "Suc k"] fitLoopCalls.simps(2) [of "Suc k"] Let_def int_midpoint wrapTextCalls_length del: fitLoop.simps(2) fitLoopCalls.simps(2))
      then show ?thesis by blast
    next
      case noov: False
      from False d have "?mid \<le> mx" and "mx - ?mid \<le> P" by linarith+
      then have "\<exists>fontSize n.
           fitLoop (Suc k) m txt wd ht maxWrap ?mid (real_of_int mx) =
             Some (Fit fontSize (wrapText m txt fontSize wd)) \<and>
           fitLoopCalls (Suc k) m txt wd ht maxWrap ?mid (real_of_int mx) = Some n \<and>
           n \<le> Suc k * length txt"
        unfolding P_def by (rule Suc.IH)
      then obtain fontSize n where
        "fitLoop (Suc k) m txt wd ht maxWrap ?mid (real_of_int mx) =
             Some (Fit fontSize (wrapText m txt fontSize wd))"
        "fitLoopCalls (Suc k) m txt wd ht maxWrap ?mid (real_of_int mx) = Some n"
        "n \<le> Suc k * length txt"
        by blast
      with le far noov have
        "fitLoop (Suc (Suc k)) m txt wd ht maxWrap mn (real_of_int mx) =
             Some (Fit fontSize (wrapText m txt fontSize wd)) \<and>
         fitLoopCalls (Suc (Suc k)) m txt wd ht maxWrap mn (real_of_int mx) = Some (length txt + n) \<and>
         length txt + n \<le> Suc (Suc k) * length txt"
        by (simp add: fitLoop.simps(2) [of "Suc k"] fitLoopCalls.simps(2) [of "Suc k"] Let_def int_midpoint wrapTextCalls_length del: fitLoop.simps(2) fitLoopCalls.simps(2))
      then show ?thesis by blast
    qed
  qed
qed

lemma discardOverflow_pos:
  assumes "1 \<le> maxWrap"
  shows "\<exists>ls'. discardOverflow ls maxWrap = Inr ls'"
proof (cases "int (length ls) > maxWrap")
  case True
  from discardOverflow_truncates [OF this assms] show ?thesis by blast
next
  case False
  then show ?thesis by (simp add: discardOverflow_def)
qed

lemma fitText_int_returns:
  assumes "1 \<le> maxWrap" and "0 \<le> H" and "H \<le> 2 ^ k"
  shows "\<exists>fontSize n.
           fitText (Suc k) m txt wd (real_of_int H) maxWrap =
             Some (Fit fontSize (wrapText m txt fontSize wd)) \<and>
           fitTextCalls (Suc k) m txt wd (real_of_int H) maxWrap = Some n \<and>
           n \<le> Suc k * length txt"
proof -
  let ?mn = "H div maxWrap"
  from assms(1) have fl: "floorDiv (real_of_int H) maxWrap = Num ?mn"
    by (simp add: floorDiv_def floor_divide_of_int_eq)
  from assms(1,2) have "0 \<le> ?mn" by (simp add: pos_imp_zdiv_nonneg_iff)
  moreover from assms(1,2) have "?mn \<le> H"
    by (metis div_by_1 zdiv_mono2 zero_less_one)
  ultimately have "?mn \<le> H" and "H - ?mn \<le> 2 ^ k"
    using assms(3) by linarith+
  from fitLoop_int_returns [OF this] show ?thesis
    by (simp add: fitText_def fitTextCalls_def fl del: fitLoop.simps fitLoopCalls.simps)
qed

lemma wrapText_Nil: "wrapText m [] fontSize wd = []"
  by (simp add: wrapText_def)

text \<open>
  A height of \<open>7 / 2\<close> with \<open>maxWrap = 2\<close>: the search starts at the sizes 1 to \<open>7 / 2\<close>
  and probes 2. If the text fits at 2, \<open>minFontSize\<close> becomes 2; from then on the midpoint
  of 2 and \<open>7 / 2\<close> is 2 again, the window is wider than 1, and the state never changes.
\<close>

lemma fitLoop_stuck:
  assumes "fits m txt wd (7 / 2) 2 2"
  shows "fitLoop fuel m txt wd (7 / 2) 2 2 (7 / 2) = None"
proof (induction fuel)
  case 0
  show ?case by simp
next
  case (Suc fuel)
  have "\<lfloor>(real_of_int 2 + 7 / 2) / 2\<rfloor> = (2::int)" by simp
  with assms Suc show ?case
    by (simp add: fits_def Let_def)
qed

lemma fitText_stuck:
  assumes "fits m txt wd (7 / 2) 2 2"
  shows "fitText fuel m txt wd (7 / 2) 2 = None"
proof (cases fuel)
  case 0
  then show ?thesis by (simp add: fitText_def floorDiv_def)
next
  case (Suc n)
  have "\<lfloor>(real_of_int 1 + 7 / 2) / 2\<rfloor> = (2::int)" by simp
  with assms Suc fitLoop_stuck [OF assms, of n] show ?thesis
    by (simp add: fitText_def floorDiv_def fits_def Let_def)
qed

text \<open>
  C9, as amended. For an integer height \<open>H\<close> with \<open>0 \<le> H \<le> 2 ^ k\<close>, \<open>k \<le> 52\<close>, and
  \<open>maxWrap \<ge> 1\<close>, the search ends within \<open>k + 1\<close> iterations by the \<open>return\<close> inside the
  loop: \<open>#fitText\<close> returns the probed font size with its wrap, \<open>calcLayout\<close> returns a
  layout, and the measurer is called at most \<open>(k + 1) * len(text)\<close> times.
\<close>

theorem fitText_terminates:
  assumes "1 \<le> maxWrap" and "0 \<le> H" and "H \<le> 2 ^ k" and "k \<le> 52"
  shows "\<exists>fontSize n res.
           fitText (Suc k) m txt wd (real_of_int H) maxWrap =
             Some (Fit fontSize (wrapText m txt fontSize wd)) \<and>
           fitTextCalls (Suc k) m txt wd (real_of_int H) maxWrap = Some n \<and>
           n \<le> Suc k * length txt \<and>
           calcLayout (Suc k) m txt wd (real_of_int H) maxWrap = Some (Inr res)"
proof -
  from fitText_int_returns [OF assms(1-3)] obtain fontSize n where
    f: "fitText (Suc k) m txt wd (real_of_int H) maxWrap =
          Some (Fit fontSize (wrapText m txt fontSize wd))" and
    n: "fitTextCalls (Suc k) m txt wd (real_of_int H) maxWrap = Some n" "n \<le> Suc k * length txt"
    by blast
  from discardOverflow_pos [OF assms(1)] obtain ls where
    "discardOverflow (wrapText m txt fontSize wd) maxWrap = Inr ls"
    by blast
  from calcLayout_Fit [OF f this] f n show ?thesis by blast
qed

theorem fitText_terminates_witness:
  "(1::int) \<le> 3 \<and> (0::int) \<le> 100 \<and> (100::int) \<le> 2 ^ 7 \<and> (7::nat) \<le> 52 \<and>
   fitText (Suc 7) (monospace (1 / 2)) [0x48, 0x69] 200 (real_of_int 100) 3 =
     Some (Fit 99 (wrapText (monospace (1 / 2)) [0x48, 0x69] 99 200)) \<and>
   fitTextCalls (Suc 7) (monospace (1 / 2)) [0x48, 0x69] 200 (real_of_int 100) 3 = Some 16 \<and>
   16 \<le> Suc 7 * length [0x48, 0x69 :: 16 word]"
proof -
  have f: "fitText (Suc 7) (monospace (1 / 2)) [0x48, 0x69] 200 (real_of_int 100) 3 =
     Some (Fit 99 (wrapText (monospace (1 / 2)) [0x48, 0x69] 99 200))"
    by (simp add: run_simps)
  have c: "fitTextCalls (Suc 7) (monospace (1 / 2)) [0x48, 0x69] 200 (real_of_int 100) 3 = Some 16"
    by (simp add: run_simps fitTextCalls_def wrapTextCalls_length)
  from fitText_terminates [of 3 100 7 "monospace (1 / 2)" "[0x48, 0x69]" 200] f c
  show ?thesis by simp
qed

text \<open>
  C9 as stated fails for a height that is not an integer. With the text \<open>A\<close>, height
  \<open>7 / 2\<close> and \<open>maxWrap = 2\<close> the call returns for no amount of fuel: the loop never ends.
  With the text \<open>abc\<close>, width 1, height \<open>5 / 2\<close> and \<open>maxWrap = 2\<close> the first probe 1
  overflows in a window wider than 1, \<open>maxFontSize\<close> becomes 0, the loop ends by its
  condition with no result, and \<open>calcLayout\<close> raises a \<open>TypeError\<close>.
\<close>

theorem calcLayout_diverges_counterexample:
  "(\<forall>fuel. calcLayout fuel (monospace (1 / 2)) [0x41] 100 (7 / 2) 2 = None) \<and>
   calcLayout 2 (monospace 1) [0x61, 0x62, 0x63] 1 (5 / 2) 2 = Some (Inl TypeError)"
proof (intro conjI allI)
  fix fuel
  have "fits (monospace (1 / 2)) [0x41] 100 (7 / 2) 2 2"
    by (simp add: fits_def wrapText_def monospace_def)
  from fitText_stuck [OF this] show "calcLayout fuel (monospace (1 / 2)) [0x41] 100 (7 / 2) 2 = None"
    by (simp add: calcLayout_def)
next
  show "calcLayout 2 (monospace 1) [0x61, 0x62, 0x63] 1 (5 / 2) 2 = Some (Inl TypeError)"
    by (simp add: run_simps)
qed

text \<open>
  C7, as amended. For the empty text, an integer height \<open>H\<close> with \<open>0 \<le> H \<le> 2 ^ k\<close>,
  \<open>k \<le> 52\<close>, and \<open>maxWrap \<ge> 1\<close>, \<open>calcLayout\<close> returns within \<open>k + 1\<close> iterations a layout
  with no lines, and raises nothing.
\<close>

theorem calcLayout_empty_text:
  assumes "1 \<le> maxWrap" and "0 \<le> H" and "H \<le> 2 ^ k" and "k \<le> 52"
  shows "\<exists>fontSize. calcLayout (Suc k) m [] wd (real_of_int H) maxWrap =
                      Some (Inr \<lparr>font = getFontFor fontSize, lines = []\<rparr>)"
proof -
  from fitText_int_returns [OF assms(1-3), of m "[]" wd] obtain fontSize where
    f: "fitText (Suc k) m [] wd (real_of_int H) maxWrap = Some (Fit fontSize [])"
    by (auto simp: wrapText_Nil)
  from assms(1) have "discardOverflow [] maxWrap = Inr []"
    by (simp add: discardOverflow_def)
  from calcLayout_Fit [OF f this] show ?thesis
    by (auto simp: calcCoordinates_def)
qed

theorem calcLayout_empty_text_witness:
  "(1::int) \<le> 3 \<and> (0::int) \<le> 100 \<and> (100::int) \<le> 2 ^ 7 \<and> (7::nat) \<le> 52 \<and>
   calcLayout (Suc 7) (monospace 1) [] 200 (real_of_int 100) 3 =
     Some (Inr \<lparr>font = getFontFor 99, lines = []\<rparr>)"
proof -
  have c: "calcLayout (Suc 7) (monospace 1) [] 200 (real_of_int 100) 3 =
     Some (Inr \<lparr>font = getFontFor 99, lines = []\<rparr>)"
    by (simp add: run_simps)
  from calcLayout_empty_text [of 3 100 7 "monospace 1" 200] c
  show ?thesis by simp
qed

text \<open>
  C7 as stated fails for a positive height that is not an integer: with the empty text,
  height \<open>7 / 2\<close> and \<open>maxWrap = 2\<close> the call returns for no amount of fuel.
\<close>

theorem calcLayout_empty_text_counterexample:
  "\<forall>fuel. calcLayout fuel (monospace 1) [] 100 (7 / 2) 2 = None"
proof
  fix fuel
  have "fits (monospace 1) [] 100 (7 / 2) 2 2"
    by (simp add: fits_def wrapText_def)
  from fitText_stuck [OF this] show "calcLayout fuel (monospace 1) [] 100 (7 / 2) 2 = None"
    by (simp add: calcLayout_def)
qed

section \<open>What the search finds\<close>

text \<open>
  On integer bounds, with the constraints downward closed in the font size over the search
  range and satisfied at its lower end, the loop keeps two facts: \<open>minFontSize\<close> satisfies
  the constraints, and no size above \<open>maxFontSize\<close> does. It returns \<open>minFontSize\<close> when
  the window has width 0 or 1, so the size it returns satisfies the constraints and is the
  largest such size or the one below it.
\<close>

lemma fitLoop_within_one:
  assumes mono: "\<And>s t. lo \<le> s \<Longrightarrow> s \<le> t \<Longrightarrow> t \<le> hi \<Longrightarrow> fits m txt wd ht maxWrap t \<Longrightarrow> fits m txt wd ht maxWrap s"
    and "fitLoop fuel m txt wd ht maxWrap mn (real_of_int mx) = Some (Fit fontSize ls)"
    and "fits m txt wd ht maxWrap mn"
    and "\<And>s. mx < s \<Longrightarrow> s \<le> hi \<Longrightarrow> \<not> fits m txt wd ht maxWrap s"
    and "lo \<le> mn" and "mn \<le> mx" and "mx \<le> hi"
  shows "fits m txt wd ht maxWrap fontSize \<and>
         (\<forall>s. fontSize + 1 < s \<and> s \<le> hi \<longrightarrow> \<not> fits m txt wd ht maxWrap s)"
  using assms(2-)
proof (induction fuel arbitrary: mn mx)
  case 0
  then show ?case by simp
next
  case (Suc fuel)
  let ?mid = "(mn + mx) div 2"
  let ?n = "int (length (wrapText m txt ?mid wd))"
  from Suc.prems(5) have le: "real_of_int mn \<le> real_of_int mx" by simp
  show ?case
  proof (cases "mx - mn \<le> 1")
    case True
    then have "real_of_int mx - real_of_int mn \<le> 1"
      by (metis of_int_diff of_int_le_1_iff)
    with Suc.prems(1) le have "fontSize = ?mid"
      by (auto simp: Let_def int_midpoint)
    with True Suc.prems(5) have fs: "fontSize = mn" by linarith
    have "\<not> fits m txt wd ht maxWrap s" if "fontSize + 1 < s \<and> s \<le> hi" for s
    proof -
      from that fs True have "mx < s" by linarith
      with that show ?thesis by (simp add: Suc.prems(3))
    qed
    with fs Suc.prems(2) show ?thesis by blast
  next
    case False
    then have far: "\<not> real_of_int mx - real_of_int mn \<le> 1"
      by (metis of_int_diff of_int_le_1_iff)
    from False have mid: "mn < ?mid" "?mid < mx" by linarith+
    have ov: "(?n > maxWrap \<or> real_of_int (?mid * ?n) > ht) \<longleftrightarrow> \<not> fits m txt wd ht maxWrap ?mid"
      by (auto simp: fits_def)
    show ?thesis
    proof (cases "fits m txt wd ht maxWrap ?mid")
      case True
      with Suc.prems(1) le far ov
      have run: "fitLoop fuel m txt wd ht maxWrap ?mid (real_of_int mx) = Some (Fit fontSize ls)"
        by (simp add: Let_def int_midpoint)
      from mid Suc.prems(4) have "lo \<le> ?mid" "?mid \<le> mx" by linarith+
      from Suc.IH [OF run True Suc.prems(3) this Suc.prems(6)] show ?thesis .
    next
      case nofit: False
      with Suc.prems(1) le far ov
      have run: "fitLoop fuel m txt wd ht maxWrap mn (real_of_int (?mid - 1)) = Some (Fit fontSize ls)"
        by (simp add: Let_def int_midpoint)
      have above: "\<not> fits m txt wd ht maxWrap s" if "?mid - 1 < s" "s \<le> hi" for s
      proof
        assume "fits m txt wd ht maxWrap s"
        moreover from mid Suc.prems(4) have "lo \<le> ?mid" by linarith
        moreover from that have "?mid \<le> s" by linarith
        ultimately have "fits m txt wd ht maxWrap ?mid"
          using that(2) by (rule_tac mono)
        with nofit show False ..
      qed
      from mid Suc.prems(6) have "mn \<le> ?mid - 1" "?mid - 1 \<le> hi" by linarith+
      from Suc.IH [OF run Suc.prems(2) above Suc.prems(4) this] show ?thesis .
    qed
  qed
qed

lemma fitText_within_one:
  assumes mono: "\<And>s t. H div maxWrap \<le> s \<Longrightarrow> s \<le> t \<Longrightarrow> t \<le> H \<Longrightarrow>
                  fits m txt wd (real_of_int H) maxWrap t \<Longrightarrow> fits m txt wd (real_of_int H) maxWrap s"
    and some: "H div maxWrap \<le> best" "best \<le> H" "fits m txt wd (real_of_int H) maxWrap best"
    and "1 \<le> maxWrap" and "0 \<le> H"
    and run: "fitText fuel m txt wd (real_of_int H) maxWrap = Some (Fit fontSize ls)"
  shows "fits m txt wd (real_of_int H) maxWrap fontSize \<and> H div maxWrap \<le> fontSize \<and> fontSize \<le> H \<and>
         (\<forall>s. H div maxWrap \<le> s \<and> s \<le> H \<and> fits m txt wd (real_of_int H) maxWrap s \<longrightarrow> s \<le> fontSize + 1)"
proof -
  let ?mn = "H div maxWrap"
  from assms(5) have fl: "floorDiv (real_of_int H) maxWrap = Num ?mn"
    by (simp add: floorDiv_def floor_divide_of_int_eq)
  with run have loop: "fitLoop fuel m txt wd (real_of_int H) maxWrap ?mn (real_of_int H) = Some (Fit fontSize ls)"
    by (simp add: fitText_def)
  from some have le: "?mn \<le> H" by linarith
  from some have first: "fits m txt wd (real_of_int H) maxWrap ?mn"
    by (rule_tac mono [of ?mn best]) simp_all
  have "fits m txt wd (real_of_int H) maxWrap fontSize \<and>
         (\<forall>s. fontSize + 1 < s \<and> s \<le> H \<longrightarrow> \<not> fits m txt wd (real_of_int H) maxWrap s)"
    by (rule fitLoop_within_one [where lo = ?mn and hi = H and mn = ?mn and mx = H, OF mono loop first])
      (use le in simp_all)
  moreover from fitLoop_Fit [OF loop] have "?mn \<le> fontSize" "fontSize \<le> H" by simp_all
  ultimately show ?thesis
    by (meson not_le_imp_less)
qed

text \<open>
  The example for C1: the text \<open>Hi\<close>, each character half the font size wide, in a box of
  200 by 100 with \<open>maxWrap = 3\<close>. Every font size up to 100 satisfies both constraints, so
  overflow is monotone in the font size and the largest size of the range 33 to 100 that
  satisfies them is 100.
\<close>

lemma example_every_size_fits:
  assumes "fontSize \<le> 100"
  shows "fits (monospace (1 / 2)) [0x48, 0x69] 200 100 3 fontSize"
proof -
  from assms have "real_of_int fontSize \<le> 100" by simp
  then have "\<not> 1 / 2 * real_of_int fontSize * 1 > 200" "\<not> 1 / 2 * real_of_int fontSize * 2 > 200"
    by simp_all
  then have "wrapText (monospace (1 / 2)) [0x48, 0x69] fontSize 200 =
    [\<lparr>text = [0x48, 0x69], width = 1 / 2 * real_of_int fontSize * 2\<rparr>]"
    by (simp add: wrapText_def monospace_def)
  with assms show ?thesis
    by (simp add: fits_def)
qed

text \<open>
  C1. The fitter does not return the largest font size that satisfies both constraints:
  on the example the search returns 99, and 100 satisfies them. The window 99 to 100 has
  width 1, and its midpoint 99 is returned without probing 100.
\<close>

theorem fitText_not_largest:
  "fitText 8 (monospace (1 / 2)) [0x48, 0x69] 200 100 3 =
     Some (Fit 99 [\<lparr>text = [0x48, 0x69], width = 99\<rparr>]) \<and>
   wrapText (monospace (1 / 2)) [0x48, 0x69] 100 200 = [\<lparr>text = [0x48, 0x69], width = 100\<rparr>] \<and>
   fits (monospace (1 / 2)) [0x48, 0x69] 200 100 3 100"
  by (simp add: run_simps fits_def)

section \<open>The chosen font size and the line cap\<close>

text \<open>
  The size that the search returns is the lower end of its range or satisfies the
  constraints: \<open>minFontSize\<close> is only ever raised to a probed size that does not overflow.
\<close>

lemma fitLoop_min_or_fits:
  assumes "fitLoop fuel m txt wd ht maxWrap mn (real_of_int mx) = Some (Fit fontSize ls)"
    and "mn = lo \<or> fits m txt wd ht maxWrap mn"
  shows "fontSize = lo \<or> fits m txt wd ht maxWrap fontSize"
  using assms
proof (induction fuel arbitrary: mn mx)
  case 0
  then show ?case by simp
next
  case (Suc fuel)
  let ?mid = "(mn + mx) div 2"
  let ?n = "int (length (wrapText m txt ?mid wd))"
  from Suc.prems(1) have le: "real_of_int mn \<le> real_of_int mx"
    by (simp split: if_splits)
  then have le': "mn \<le> mx" by simp
  show ?case
  proof (cases "mx - mn \<le> 1")
    case True
    then have "real_of_int mx - real_of_int mn \<le> 1"
      by (metis of_int_diff of_int_le_1_iff)
    with Suc.prems(1) le have "fontSize = ?mid"
      by (auto simp: Let_def int_midpoint)
    with True le' have "fontSize = mn" by linarith
    with Suc.prems(2) show ?thesis by simp
  next
    case False
    then have far: "\<not> real_of_int mx - real_of_int mn \<le> 1"
      by (metis of_int_diff of_int_le_1_iff)
    have ov: "(?n > maxWrap \<or> real_of_int (?mid * ?n) > ht) \<longleftrightarrow> \<not> fits m txt wd ht maxWrap ?mid"
      by (auto simp: fits_def)
    show ?thesis
    proof (cases "fits m txt wd ht maxWrap ?mid")
      case True
      with Suc.prems(1) le far ov
      have run: "fitLoop fuel m txt wd ht maxWrap ?mid (real_of_int mx) = Some (Fit fontSize ls)"
        by (simp add: Let_def int_midpoint)
      from True have "?mid = lo \<or> fits m txt wd ht maxWrap ?mid" by simp
      from Suc.IH [OF run this] show ?thesis .
    next
      case nofit: False
      with Suc.prems(1) le far ov
      have run: "fitLoop fuel m txt wd ht maxWrap mn (real_of_int (?mid - 1)) = Some (Fit fontSize ls)"
        by (simp add: Let_def int_midpoint)
      from Suc.IH [OF run Suc.prems(2)] show ?thesis .
    qed
  qed
qed

text \<open>
  C8, as amended. For an integer height \<open>H\<close> with \<open>0 \<le> H \<le> 2 ^ k\<close>, \<open>k \<le> 52\<close>, line caps
  \<open>1 \<le> maxWrap1 \<le> maxWrap2\<close> and a measurer that makes overflow monotone in the font
  size (under \<open>maxWrap2\<close>, over its search range), both searches return, with the sizes
  \<open>f1\<close> and \<open>f2\<close>. If the result for \<open>maxWrap1\<close> satisfies both constraints, then
  \<open>f2 \<ge> f1 - 1\<close>: raising the cap lowers the font size by at most one. If it overflows,
  then \<open>f1\<close> is \<open>floor(H / maxWrap1)\<close>, the lower end of its range, and of \<open>f2\<close> only
  \<open>f2 \<ge> floor(H / maxWrap2)\<close> is left.
\<close>

theorem fitText_maxWrap_within_one:
  assumes "1 \<le> maxWrap1" and "maxWrap1 \<le> maxWrap2" and "0 \<le> H" and "H \<le> 2 ^ k" and "k \<le> 52"
    and mono: "\<And>s t. H div maxWrap2 \<le> s \<Longrightarrow> s \<le> t \<Longrightarrow> t \<le> H \<Longrightarrow>
                  fits m txt wd (real_of_int H) maxWrap2 t \<Longrightarrow> fits m txt wd (real_of_int H) maxWrap2 s"
  shows "\<exists>f1 f2.
           fitText (Suc k) m txt wd (real_of_int H) maxWrap1 = Some (Fit f1 (wrapText m txt f1 wd)) \<and>
           fitText (Suc k) m txt wd (real_of_int H) maxWrap2 = Some (Fit f2 (wrapText m txt f2 wd)) \<and>
           (fits m txt wd (real_of_int H) maxWrap1 f1 \<longrightarrow> f1 - 1 \<le> f2) \<and>
           (\<not> fits m txt wd (real_of_int H) maxWrap1 f1 \<longrightarrow> f1 = H div maxWrap1) \<and>
           H div maxWrap2 \<le> f2 \<and> f2 \<le> H"
proof -
  from assms(1,2) have two: "1 \<le> maxWrap2" by linarith
  from fitText_int_returns [OF assms(1,3,4), of m "txt" wd] obtain f1 where
    r1: "fitText (Suc k) m txt wd (real_of_int H) maxWrap1 = Some (Fit f1 (wrapText m txt f1 wd))"
    by blast
  from fitText_int_returns [OF two assms(3,4), of m "txt" wd] obtain f2 where
    r2: "fitText (Suc k) m txt wd (real_of_int H) maxWrap2 = Some (Fit f2 (wrapText m txt f2 wd))"
    by blast
  from assms(1) have fl1: "floorDiv (real_of_int H) maxWrap1 = Num (H div maxWrap1)"
    by (simp add: floorDiv_def floor_divide_of_int_eq)
  with r1 have loop1: "fitLoop (Suc k) m txt wd (real_of_int H) maxWrap1 (H div maxWrap1) (real_of_int H) =
      Some (Fit f1 (wrapText m txt f1 wd))"
    by (simp add: fitText_def del: fitLoop.simps)
  from fitLoop_Fit [OF loop1] have b1: "H div maxWrap1 \<le> f1" "f1 \<le> H" by simp_all
  from two have fl2: "floorDiv (real_of_int H) maxWrap2 = Num (H div maxWrap2)"
    by (simp add: floorDiv_def floor_divide_of_int_eq)
  with r2 have loop2: "fitLoop (Suc k) m txt wd (real_of_int H) maxWrap2 (H div maxWrap2) (real_of_int H) =
      Some (Fit f2 (wrapText m txt f2 wd))"
    by (simp add: fitText_def del: fitLoop.simps)
  from fitLoop_Fit [OF loop2] have b2: "H div maxWrap2 \<le> f2" "f2 \<le> H" by simp_all
  from assms(1,2,3) have "H div maxWrap2 \<le> H div maxWrap1"
    by (intro zdiv_mono2) simp_all
  with b1 have in2: "H div maxWrap2 \<le> f1" by linarith
  have fit: "f1 - 1 \<le> f2" if f: "fits m txt wd (real_of_int H) maxWrap1 f1"
  proof -
    from f assms(2) have f': "fits m txt wd (real_of_int H) maxWrap2 f1"
      by (simp add: fits_def)
    have "fits m txt wd (real_of_int H) maxWrap2 f2 \<and> H div maxWrap2 \<le> f2 \<and> f2 \<le> H \<and>
      (\<forall>s. H div maxWrap2 \<le> s \<and> s \<le> H \<and> fits m txt wd (real_of_int H) maxWrap2 s \<longrightarrow> s \<le> f2 + 1)"
      by (rule fitText_within_one [OF _ in2 b1(2) f' two assms(3) r2]) (rule mono)
    then have "\<forall>s. H div maxWrap2 \<le> s \<and> s \<le> H \<and> fits m txt wd (real_of_int H) maxWrap2 s \<longrightarrow> s \<le> f2 + 1"
      by simp
    with in2 b1(2) f' have "f1 \<le> f2 + 1" by blast
    then show ?thesis by simp
  qed
  have "f1 = H div maxWrap1 \<or> fits m txt wd (real_of_int H) maxWrap1 f1"
    by (rule fitLoop_min_or_fits [OF loop1]) simp
  then have over: "f1 = H div maxWrap1" if "\<not> fits m txt wd (real_of_int H) maxWrap1 f1"
    using that by blast
  from r1 r2 fit over b2 show ?thesis by blast
qed

theorem fitText_maxWrap_within_one_witness:
  "(1::int) \<le> 1 \<and> (1::int) \<le> 3 \<and> (0::int) \<le> 100 \<and> (100::int) \<le> 2 ^ 7 \<and> (7::nat) \<le> 52 \<and>
   fitText (Suc 7) (monospace (1 / 2)) [0x48, 0x69] 200 (real_of_int 100) 1 =
     Some (Fit 100 (wrapText (monospace (1 / 2)) [0x48, 0x69] 100 200)) \<and>
   fitText (Suc 7) (monospace (1 / 2)) [0x48, 0x69] 200 (real_of_int 100) 3 =
     Some (Fit 99 (wrapText (monospace (1 / 2)) [0x48, 0x69] 99 200)) \<and>
   fits (monospace (1 / 2)) [0x48, 0x69] 200 (real_of_int 100) 1 100 \<and>
   (100::int) - 1 \<le> 99"
proof -
  have every: "\<exists>f1 f2.
      fitText (Suc 7) (monospace (1 / 2)) [0x48, 0x69] 200 (real_of_int 100) 1 =
        Some (Fit f1 (wrapText (monospace (1 / 2)) [0x48, 0x69] f1 200)) \<and>
      fitText (Suc 7) (monospace (1 / 2)) [0x48, 0x69] 200 (real_of_int 100) 3 =
        Some (Fit f2 (wrapText (monospace (1 / 2)) [0x48, 0x69] f2 200)) \<and>
      (fits (monospace (1 / 2)) [0x48, 0x69] 200 (real_of_int 100) 1 f1 \<longrightarrow> f1 - 1 \<le> f2) \<and>
      (\<not> fits (monospace (1 / 2)) [0x48, 0x69] 200 (real_of_int 100) 1 f1 \<longrightarrow> f1 = 100 div 1) \<and>
      100 div 3 \<le> f2 \<and> f2 \<le> 100"
  proof (rule fitText_maxWrap_within_one)
    fix s t :: int
    assume "s \<le> t" "t \<le> 100"
    then have "s \<le> 100" by simp
    then show "fits (monospace (1 / 2)) [0x48, 0x69] 200 (real_of_int 100) 3 s"
      using example_every_size_fits [of s] by simp
  qed simp_all
  have f1: "fitText (Suc 7) (monospace (1 / 2)) [0x48, 0x69] 200 (real_of_int 100) 1 =
     Some (Fit 100 (wrapText (monospace (1 / 2)) [0x48, 0x69] 100 200))"
    by (simp add: run_simps)
  have f3: "fitText (Suc 7) (monospace (1 / 2)) [0x48, 0x69] 200 (real_of_int 100) 3 =
     Some (Fit 99 (wrapText (monospace (1 / 2)) [0x48, 0x69] 99 200))"
    by (simp add: run_simps)
  have ok: "fits (monospace (1 / 2)) [0x48, 0x69] 200 (real_of_int 100) 1 100"
    by (simp add: fits_def wrapText_def monospace_def)
  from every f1 f3 ok show ?thesis by simp
qed

text \<open>
  C8 as stated fails: for the text \<open>ab\<close> in a box of 10 by 10, \<open>maxWrap = 1\<close> gives the
  font size 10, whose wrap overflows and is truncated, and \<open>maxWrap = 2\<close> gives 5.
\<close>

theorem calcLayout_maxWrap_counterexample:
  "calcLayout 3 (monospace 1) [0x61, 0x62] 10 10 1 =
     Some (Inr \<lparr>font = Px_sans_serif 10,
                lines = [\<lparr>text = [0x61, 0x2026], width = 10, x = 0, y = 44 / 5\<rparr>]\<rparr>) \<and>
   calcLayout 3 (monospace 1) [0x61, 0x62] 10 10 2 =
     Some (Inr \<lparr>font = Px_sans_serif 5,
                lines = [\<lparr>text = [0x61, 0x62], width = 10, x = 0, y = 69 / 10\<rparr>]\<rparr>) \<and>
   \<not> (10::int) \<le> 5"
  by (simp add: run_simps)

section \<open>The wrap has the fewest lines\<close>

text \<open>
  When the first character fits into \<open>maxWidth\<close>, and removing characters from either end
  of a string never makes it wider, the lines of \<open>#wrapText\<close> are a split as the contract
  allows it, and no such split has fewer lines: the greedy line ends no earlier than the
  first line of any other split, and what remains is a suffix of the other split's rest.
\<close>

lemma wrapLoop_nlines:
  "wrapLoop m fontSize wd cs (ls, cur) = (ls', cur') \<Longrightarrow>
   length ls' + (if text cur' \<noteq> [] then 1 else 0) = length ls + nlines m fontSize wd (text cur) cs"
proof (induction cs arbitrary: ls cur)
  case Nil
  then show ?case by auto
next
  case (Cons c cs)
  show ?case
  proof (cases "m fontSize (text cur @ [c]) > wd")
    case True
    with Cons.prems have
      "wrapLoop m fontSize wd cs (ls @ [cur], \<lparr>text = [c], width = m fontSize (text cur @ [c]) - width cur\<rparr>) = (ls', cur')"
      by (simp add: Let_def)
    from Cons.IH [OF this] True show ?thesis by simp
  next
    case False
    with Cons.prems have
      "wrapLoop m fontSize wd cs (ls, \<lparr>text = text cur @ [c], width = m fontSize (text cur @ [c])\<rparr>) = (ls', cur')"
      by (simp add: Let_def)
    from Cons.IH [OF this] False show ?thesis by simp
  qed
qed

lemma length_wrapText: "length (wrapText m txt fontSize wd) = nlines m fontSize wd [] txt"
proof -
  obtain ls cur where w: "wrapLoop m fontSize wd txt ([], \<lparr>text = [], width = 0\<rparr>) = (ls, cur)"
    by (cases "wrapLoop m fontSize wd txt ([], \<lparr>text = [], width = 0\<rparr>)")
  from wrapLoop_nlines [OF w] w show ?thesis
    by (simp add: wrapText_def split: if_splits)
qed

lemma nlines_cases:
  assumes "cur \<noteq> []"
  shows "nlines m fontSize wd cur cs = 1 \<or>
         (\<exists>r c cs'. cs = r @ c # cs' \<and> m fontSize (cur @ r @ [c]) > wd \<and>
                     nlines m fontSize wd cur cs = Suc (nlines m fontSize wd [c] cs'))"
  using assms
proof (induction cs arbitrary: cur)
  case Nil
  then show ?case by simp
next
  case (Cons c cs)
  show ?case
  proof (cases "m fontSize (cur @ [c]) > wd")
    case True
    then have "c # cs = [] @ c # cs \<and> m fontSize (cur @ [] @ [c]) > wd \<and>
               nlines m fontSize wd cur (c # cs) = Suc (nlines m fontSize wd [c] cs)"
      by simp
    then show ?thesis by blast
  next
    case False
    have "cur @ [c] \<noteq> []" by simp
    from Cons.IH [OF this] show ?thesis
    proof
      assume "nlines m fontSize wd (cur @ [c]) cs = 1"
      with False show ?thesis by simp
    next
      assume "\<exists>r c' cs'. cs = r @ c' # cs' \<and> m fontSize ((cur @ [c]) @ r @ [c']) > wd \<and>
                nlines m fontSize wd (cur @ [c]) cs = Suc (nlines m fontSize wd [c'] cs')"
      then obtain r c' cs' where "cs = r @ c' # cs'" "m fontSize ((cur @ [c]) @ r @ [c']) > wd"
        "nlines m fontSize wd (cur @ [c]) cs = Suc (nlines m fontSize wd [c'] cs')"
        by blast
      with False have "c # cs = (c # r) @ c' # cs' \<and> m fontSize (cur @ (c # r) @ [c']) > wd \<and>
               nlines m fontSize wd cur (c # cs) = Suc (nlines m fontSize wd [c'] cs')"
        by simp
      then show ?thesis by blast
    qed
  qed
qed

lemma valid_split_suffix:
  assumes mono: "\<And>a s. m fontSize s \<le> m fontSize (a @ s)"
    and "valid_split m fontSize wd parts (a @ t)"
  shows "\<exists>parts'. valid_split m fontSize wd parts' t \<and> length parts' \<le> length parts"
  using assms(2)
proof (induction parts arbitrary: a)
  case Nil
  then have "valid_split m fontSize wd [] t" by (simp add: valid_split_def)
  then show ?case by blast
next
  case (Cons p ps)
  from Cons.prems have cat: "p @ concat ps = a @ t" and p: "p \<noteq> []" "m fontSize p \<le> wd \<or> length p = 1"
    and ps: "list_all (\<lambda>p. p \<noteq> [] \<and> (m fontSize p \<le> wd \<or> length p = 1)) ps"
    by (simp_all add: valid_split_def)
  from cat obtain us where
    "(p = a @ us \<and> us @ concat ps = t) \<or> (p @ us = a \<and> concat ps = us @ t)"
    unfolding append_eq_append_conv2 by blast
  then consider a' where "a = p @ a'" "concat ps = a' @ t"
    | p' where "p = a @ p'" "p' \<noteq> []" "t = p' @ concat ps"
  proof (elim disjE conjE)
    assume "p = a @ us" "us @ concat ps = t"
    assume c1: "\<And>a'. a = p @ a' \<Longrightarrow> concat ps = a' @ t \<Longrightarrow> thesis"
      and c2: "\<And>p'. p = a @ p' \<Longrightarrow> p' \<noteq> [] \<Longrightarrow> t = p' @ concat ps \<Longrightarrow> thesis"
    show thesis
    proof (cases "us = []")
      case True
      with \<open>p = a @ us\<close> \<open>us @ concat ps = t\<close> show thesis by (intro c1 [of "[]"]) simp_all
    next
      case False
      with \<open>p = a @ us\<close> \<open>us @ concat ps = t\<close> show thesis by (intro c2 [of us]) simp_all
    qed
  next
    assume "p @ us = a" "concat ps = us @ t"
    assume c1: "\<And>a'. a = p @ a' \<Longrightarrow> concat ps = a' @ t \<Longrightarrow> thesis"
    from \<open>p @ us = a\<close> \<open>concat ps = us @ t\<close> show thesis by (intro c1 [of us]) simp_all
  qed
  then show ?case
  proof cases
    case 1
    with ps have "valid_split m fontSize wd ps (a' @ t)" by (simp add: valid_split_def)
    from Cons.IH [OF this] show ?thesis by auto
  next
    case 2
    have "m fontSize p' \<le> wd \<or> length p' = 1"
    proof (cases "length p = 1")
      case True
      with 2 have "a = []" by (cases a) auto
      with 2 True show ?thesis by simp
    next
      case False
      with p have "m fontSize p \<le> wd" by simp
      with mono [of p' a] 2 show ?thesis by simp
    qed
    with 2 ps have "valid_split m fontSize wd (p' # ps) t" by (simp add: valid_split_def)
    then show ?thesis by auto
  qed
qed

lemma nlines_minimal:
  assumes pre: "\<And>s b. m fontSize s \<le> m fontSize (s @ b)"
    and suf: "\<And>a s. m fontSize s \<le> m fontSize (a @ s)"
    and "valid_split m fontSize wd parts (c # cs)"
  shows "nlines m fontSize wd [c] cs \<le> length parts"
  using assms(3)
proof (induction "length cs" arbitrary: c cs parts rule: less_induct)
  case less
  from less.prems obtain p rest where parts: "parts = p # rest"
    by (cases parts) (auto simp: valid_split_def)
  with less.prems have cat: "p @ concat rest = c # cs" and p: "p \<noteq> []" "m fontSize p \<le> wd \<or> length p = 1"
    and rest: "list_all (\<lambda>p. p \<noteq> [] \<and> (m fontSize p \<le> wd \<or> length p = 1)) rest"
    by (simp_all add: valid_split_def)
  have "[c] \<noteq> []" by simp
  from nlines_cases [OF this, of m fontSize wd cs] show ?case
  proof
    assume "nlines m fontSize wd [c] cs = 1"
    with parts show ?thesis by simp
  next
    assume "\<exists>r c' cs'. cs = r @ c' # cs' \<and> m fontSize ([c] @ r @ [c']) > wd \<and>
              nlines m fontSize wd [c] cs = Suc (nlines m fontSize wd [c'] cs')"
    then obtain r c' cs' where cs: "cs = r @ c' # cs'" and over: "m fontSize ([c] @ r @ [c']) > wd"
      and n: "nlines m fontSize wd [c] cs = Suc (nlines m fontSize wd [c'] cs')"
      by blast
    from cat cs have "p @ concat rest = (c # r) @ (c' # cs')" by simp
    then obtain us where
      "(p = (c # r) @ us \<and> us @ concat rest = c' # cs') \<or> (p @ us = c # r \<and> concat rest = us @ c' # cs')"
      unfolding append_eq_append_conv2 by blast
    then have "\<exists>a. concat rest = a @ c' # cs'"
    proof (elim disjE conjE)
      assume pu: "p = (c # r) @ us" and uc: "us @ concat rest = c' # cs'"
      show ?thesis
      proof (cases us)
        case Nil
        with uc show ?thesis by simp
      next
        case (Cons u b')
        with uc have "u = c'" by simp
        with pu Cons have pp: "p = ([c] @ r @ [c']) @ b'" by simp
        then have "length p \<noteq> 1" by simp
        with p have "m fontSize p \<le> wd" by blast
        with pre [of "[c] @ r @ [c']" b'] pp over show ?thesis by simp
      qed
    next
      assume "concat rest = us @ c' # cs'"
      then show ?thesis by blast
    qed
    then obtain a where "concat rest = a @ c' # cs'" ..
    with rest have "valid_split m fontSize wd rest (a @ c' # cs')" by (simp add: valid_split_def)
    from valid_split_suffix [where m = m and fontSize = fontSize, OF suf this] obtain parts' where
      v: "valid_split m fontSize wd parts' (c' # cs')" and l: "length parts' \<le> length rest"
      by blast
    from cs have "length cs' < length cs" by simp
    from less.hyps [OF this v] l n parts show ?thesis by simp
  qed
qed

lemma wrapText_minimal:
  assumes pre: "\<And>s b. m fontSize s \<le> m fontSize (s @ b)"
    and suf: "\<And>a s. m fontSize s \<le> m fontSize (a @ s)"
    and fst_fits: "txt \<noteq> [] \<Longrightarrow> m fontSize [hd txt] \<le> wd"
    and vs: "valid_split m fontSize wd parts txt"
  shows "length (wrapText m txt fontSize wd) \<le> length parts"
proof (cases "txt")
  case Nil
  then show ?thesis by (simp add: wrapText_def)
next
  case (Cons c cs)
  with fst_fits have "nlines m fontSize wd [] txt = nlines m fontSize wd [c] cs" by simp
  moreover from vs Cons have "valid_split m fontSize wd parts (c # cs)" by simp
  then have "nlines m fontSize wd [c] cs \<le> length parts"
    by (rule nlines_minimal [where m = m and fontSize = fontSize, OF pre suf])
  ultimately show ?thesis
    by (simp add: length_wrapText)
qed

lemma wrapLoop_valid:
  assumes "wrapLoop m fontSize wd cs (ls, cur) = (ls', cur')"
    and "list_all (\<lambda>p. p \<noteq> [] \<and> (m fontSize p \<le> wd \<or> length p = 1)) (map text ls)"
    and "text cur = [] \<or> m fontSize (text cur) \<le> wd \<or> length (text cur) = 1"
    and "text cur = [] \<Longrightarrow> cs \<noteq> [] \<Longrightarrow> m fontSize [hd cs] \<le> wd"
  shows "list_all (\<lambda>p. p \<noteq> [] \<and> (m fontSize p \<le> wd \<or> length p = 1)) (map text ls') \<and>
         (text cur' = [] \<or> m fontSize (text cur') \<le> wd \<or> length (text cur') = 1)"
  using assms
proof (induction cs arbitrary: ls cur)
  case Nil
  then show ?case by simp
next
  case (Cons c cs)
  show ?case
  proof (cases "m fontSize (text cur @ [c]) > wd")
    case True
    let ?new = "\<lparr>text = [c], width = m fontSize (text cur @ [c]) - width cur\<rparr>"
    from True Cons.prems(1) have run: "wrapLoop m fontSize wd cs (ls @ [cur], ?new) = (ls', cur')"
      by (simp add: Let_def)
    from True Cons.prems(4) have "text cur \<noteq> []" by auto
    with Cons.prems(2,3) have
      "list_all (\<lambda>p. p \<noteq> [] \<and> (m fontSize p \<le> wd \<or> length p = 1)) (map text (ls @ [cur]))"
      by simp
    from Cons.IH [OF run this] show ?thesis by simp
  next
    case False
    let ?new = "\<lparr>text = text cur @ [c], width = m fontSize (text cur @ [c])\<rparr>"
    from False Cons.prems(1) have run: "wrapLoop m fontSize wd cs (ls, ?new) = (ls', cur')"
      by (simp add: Let_def)
    from False have "text ?new = [] \<or> m fontSize (text ?new) \<le> wd \<or> length (text ?new) = 1"
      by simp
    from Cons.IH [OF run Cons.prems(2) this] show ?thesis by simp
  qed
qed

lemma wrapText_valid_split:
  assumes "txt \<noteq> [] \<Longrightarrow> m fontSize [hd txt] \<le> wd"
  shows "valid_split m fontSize wd (map text (wrapText m txt fontSize wd)) txt"
proof -
  obtain ls cur where w: "wrapLoop m fontSize wd txt ([], \<lparr>text = [], width = 0\<rparr>) = (ls, cur)"
    by (cases "wrapLoop m fontSize wd txt ([], \<lparr>text = [], width = 0\<rparr>)")
  from wrapLoop_valid [OF w] assms
  have "list_all (\<lambda>p. p \<noteq> [] \<and> (m fontSize p \<le> wd \<or> length p = 1)) (map text ls)"
    and "text cur = [] \<or> m fontSize (text cur) \<le> wd \<or> length (text cur) = 1"
    by simp_all
  with w have "list_all (\<lambda>p. p \<noteq> [] \<and> (m fontSize p \<le> wd \<or> length p = 1))
                 (map text (wrapText m txt fontSize wd))"
    by (auto simp: wrapText_def)
  then show ?thesis
    by (simp add: valid_split_def concat_wrapText)
qed

text \<open>
  C2. The wrapper does not give the minimum number of lines when the first character alone
  is wider than \<open>maxWidth\<close>: the empty current line is pushed before the character starts
  its own line. Here one character of width 100 is wrapped into the width 10.
\<close>

theorem wrapText_empty_first_line:
  "wrapText (monospace 1) [0x57] 100 10 = [\<lparr>text = [], width = 0\<rparr>, \<lparr>text = [0x57], width = 100\<rparr>]"
  by (simp add: wrapText_def monospace_def)

end
